theory Spec2Isabelle
  imports Complex_Main "HOL-Library.Word" "HOL-Library.Char_ord" "HOL-Library.List_Lexorder"
begin

section \<open>jmfinder: primitive decoders\<close>

text \<open>
  A Python \<open>bytes\<close> object is a list of 8-bit words. Offsets, lengths and the unsigned
  values that \<open>struct.unpack\<close> returns are natural numbers; the classifier works on
  Python's unbounded integers. Every exception the source can raise is a value of
  \<open>error\<close>, returned on the left of a sum.
\<close>

type_synonym byte = "8 word"

datatype error = IndexError | ValueError | StructError

text \<open>\<open>data[a:b]\<close> for non-negative \<open>a\<close> and \<open>b\<close>: out-of-range bounds are clipped.\<close>

definition py_slice :: "'a list \<Rightarrow> nat \<Rightarrow> nat \<Rightarrow> 'a list" where
  "py_slice xs a b = drop a (take b xs)"

text \<open>\<open>data[-n:]\<close>: the last \<open>n\<close> elements, or all of them when there are fewer.\<close>

definition last_n :: "nat \<Rightarrow> 'a list \<Rightarrow> 'a list" where
  "last_n n xs = drop (length xs - n) xs"

text \<open>The value of a little-endian unsigned field, least significant byte first.\<close>

fun le_bytes :: "byte list \<Rightarrow> nat" where
  "le_bytes [] = 0"
| "le_bytes (b # bs) = unat b + 256 * le_bytes bs"

text \<open>
  \<open>struct.unpack(fmt, buf)[0]\<close> for the little-endian unsigned formats \<open><H\<close>, \<open><I\<close>,
  \<open><Q\<close>, given by their \<open>struct.calcsize\<close>: it raises \<open>struct.error\<close> unless the buffer
  has exactly that many bytes.
\<close>

definition struct_unpack :: "nat \<Rightarrow> byte list \<Rightarrow> error + nat" where
  "struct_unpack calcsize buf = (if length buf \<noteq> calcsize then Inl StructError else Inr (le_bytes buf))"

definition decode_uint32 :: "byte list \<Rightarrow> error + nat" where
  "decode_uint32 data = (if length data \<noteq> 4 then Inl ValueError else struct_unpack 4 data)"

definition decode_uint64 :: "byte list \<Rightarrow> error + nat" where
  "decode_uint64 data = (if length data \<noteq> 8 then Inl ValueError else struct_unpack 8 data)"

definition decode_varint :: "byte list \<Rightarrow> error + (nat \<times> nat)" where
  "decode_varint data =
     (case data of
        [] \<Rightarrow> Inl IndexError
      | b # _ \<Rightarrow>
          (let sz = unat b in
           if sz > 255 then Inl ValueError
           else if sz < 253 then Inr (sz, 1)
           else (case (if sz = 253 then Some 2
                       else if sz = 254 then Some 4
                       else if sz = 255 then Some 8
                       else None) of
                   None \<Rightarrow> Inl ValueError
                 | Some calcsize \<Rightarrow>
                     (case struct_unpack calcsize (py_slice data 1 (calcsize + 1)) of
                        Inl e \<Rightarrow> Inl e
                      | Inr v \<Rightarrow> Inr (v, calcsize + 1)))))"

section \<open>jmfinder: the JoinMarket pattern classifier\<close>

definition MIN_PARTICIPANTS :: int where
  "MIN_PARTICIPANTS = 3"

definition MIN_CJ_AMOUNT :: int where
  "MIN_CJ_AMOUNT = 75000"

text \<open>
  \<open>Counter(values)\<close> is a dictionary that keeps its keys in the order of their first
  insertion: an association list, where a key already present has its count incremented in
  place and a new key is appended with count 1.
\<close>

fun counter_add :: "int \<Rightarrow> (int \<times> int) list \<Rightarrow> (int \<times> int) list" where
  "counter_add x [] = [(x, 1)]"
| "counter_add x ((k, c) # kcs) =
     (if k = x then (k, c + 1) # kcs else (k, c) # counter_add x kcs)"

definition Counter :: "int list \<Rightarrow> (int \<times> int) list" where
  "Counter values = fold counter_add values []"

text \<open>
  \<open>most_common(1)\<close> is \<open>heapq.nlargest(1, items, key=count)\<close>, which for one element is
  \<open>max\<close> over the items in dictionary order: the first item whose count no later item
  exceeds strictly replaces nothing, so the first maximum wins. The result is a list with
  that item, empty for an empty counter.
\<close>

fun max_item :: "(int \<times> int) \<Rightarrow> (int \<times> int) list \<Rightarrow> (int \<times> int)" where
  "max_item best [] = best"
| "max_item best (kc # kcs) = max_item (if snd kc > snd best then kc else best) kcs"

definition most_common_1 :: "(int \<times> int) list \<Rightarrow> (int \<times> int) list" where
  "most_common_1 items = (case items of [] \<Rightarrow> [] | kc # kcs \<Rightarrow> [max_item kc kcs])"

definition is_jm :: "int \<Rightarrow> int \<Rightarrow> int list \<Rightarrow> error + (int \<times> int)" where
  "is_jm n_in n_out values =
     (let assumed_cj_outs = n_out div 2;
          assumed_cj_outs = (if n_out mod 2 \<noteq> 0 then assumed_cj_outs + 1 else assumed_cj_outs)
      in if assumed_cj_outs < MIN_PARTICIPANTS then Inr (0, 0)
         else if n_in < assumed_cj_outs then Inr (0, 0)
         else (case most_common_1 (Counter values) of
                 [] \<Rightarrow> Inl IndexError
               | (most_common_value, equal_outs) # _ \<Rightarrow>
                   if most_common_value < MIN_CJ_AMOUNT then Inr (0, 0)
                   else if equal_outs \<noteq> assumed_cj_outs then Inr (0, 0)
                   else Inr (most_common_value, equal_outs)))"

section \<open>jmfinder: decoding one transaction\<close>

text \<open>
  The local variables of one pass through the body of the \<open>try\<close> in \<open>main\<close>, as they
  stand after \<open>tx_size = tx_offset + 4\<close>. \<open>out_values\<close> is the list \<open>values\<close>.
  \<open>offset_before_tx_witnesses\<close> is assigned for a segwit transaction only and read for one
  only; the model holds 0 in it otherwise.
\<close>

record tx_fields =
  version :: nat
  locktime :: nat
  is_segwit :: bool
  n_in :: nat
  n_out :: nat
  out_values :: "nat list"
  offset_before_tx_witnesses :: nat
  tx_size :: nat

text \<open>
  The loop over the inputs: \<open>tx\<close> is the slice being decoded, the last argument is
  \<open>tx_offset\<close>. Nothing checks that the skipped script and sequence number lie inside the
  slice; only the bytes of the length field are read.
\<close>

fun parse_inputs :: "nat \<Rightarrow> byte list \<Rightarrow> nat \<Rightarrow> error + nat" where
  "parse_inputs 0 tx off = Inr off"
| "parse_inputs (Suc n) tx off =
     (let tx_input = drop off tx in
      case decode_varint (drop 36 tx_input) of
        Inl e \<Rightarrow> Inl e
      | Inr (script_length, varint_length) \<Rightarrow>
          (let script_start = 36 + varint_length;
               in_size = script_start + script_length + 4
           in parse_inputs n tx (off + in_size)))"

text \<open>The loop over the outputs, appending each decoded value to \<open>values\<close>.\<close>

fun parse_outputs :: "nat \<Rightarrow> byte list \<Rightarrow> nat \<Rightarrow> nat list \<Rightarrow> error + (nat \<times> nat list)" where
  "parse_outputs 0 tx off vals = Inr (off, vals)"
| "parse_outputs (Suc n) tx off vals =
     (let tx_output = drop off tx;
          value_hex = take 8 tx_output
      in case decode_uint64 value_hex of
           Inl e \<Rightarrow> Inl e
         | Inr v \<Rightarrow>
             (case decode_varint (drop 8 tx_output) of
                Inl e \<Rightarrow> Inl e
              | Inr (script_length, varint_size) \<Rightarrow>
                  (let script_start = 8 + varint_size;
                       out_size = script_start + script_length
                   in parse_outputs n tx (off + out_size) (vals @ [v]))))"

text \<open>The items of one witness stack, then the stacks of all inputs.\<close>

fun parse_witness_items :: "nat \<Rightarrow> byte list \<Rightarrow> nat \<Rightarrow> error + nat" where
  "parse_witness_items 0 tx off = Inr off"
| "parse_witness_items (Suc n) tx off =
     (case decode_varint (drop off tx) of
        Inl e \<Rightarrow> Inl e
      | Inr (component_length, varint_size) \<Rightarrow>
          parse_witness_items n tx (off + varint_size + component_length))"

fun parse_witnesses :: "nat \<Rightarrow> byte list \<Rightarrow> nat \<Rightarrow> error + nat" where
  "parse_witnesses 0 tx off = Inr off"
| "parse_witnesses (Suc n) tx off =
     (case decode_varint (drop off tx) of
        Inl e \<Rightarrow> Inl e
      | Inr (tx_witnesses_n, varint_size) \<Rightarrow>
          (case parse_witness_items tx_witnesses_n tx (off + varint_size) of
             Inl e \<Rightarrow> Inl e
           | Inr off' \<Rightarrow> parse_witnesses n tx off'))"

text \<open>
  The body of the \<open>try\<close> from \<open>version = decode_uint32(tx[:4])\<close> to
  \<open>tx_size = tx_offset + 4\<close>, on the slice \<open>tx\<close>. The locktime is decoded from the last four
  bytes of the slice, before anything else is parsed.
\<close>

definition parse_fields :: "byte list \<Rightarrow> error + tx_fields" where
  "parse_fields tx =
     (case decode_uint32 (take 4 tx) of
        Inl e \<Rightarrow> Inl e
      | Inr ver \<Rightarrow>
     (case decode_uint32 (last_n 4 tx) of
        Inl e \<Rightarrow> Inl e
      | Inr lock \<Rightarrow>
     (let segwit = (py_slice tx 4 (4 + 2) = [0, 1]);
          off0 = (if segwit then 4 + 2 else 4)
      in
     (case decode_varint (drop off0 tx) of
        Inl e \<Rightarrow> Inl e
      | Inr (nin, varint_size) \<Rightarrow>
     (case parse_inputs nin tx (off0 + varint_size) of
        Inl e \<Rightarrow> Inl e
      | Inr off1 \<Rightarrow>
     (case decode_varint (drop off1 tx) of
        Inl e \<Rightarrow> Inl e
      | Inr (nout, varint_size') \<Rightarrow>
     (case parse_outputs nout tx (off1 + varint_size') [] of
        Inl e \<Rightarrow> Inl e
      | Inr (off2, vals) \<Rightarrow>
     (case (if segwit then parse_witnesses nin tx off2 else Inr off2) of
        Inl e \<Rightarrow> Inl e
      | Inr off3 \<Rightarrow>
          Inr \<lparr>version = ver, locktime = lock, is_segwit = segwit, n_in = nin, n_out = nout,
               out_values = vals,
               offset_before_tx_witnesses = (if segwit then off2 else 0),
               tx_size = off3 + 4\<rparr>))))))))"

section \<open>jmfinder: identifier and virtual size\<close>

text \<open>
  \<open>hashlib.sha256(data).digest()\<close> belongs to the standard library: every function that
  hashes takes it as the parameter \<open>sha256\<close>.
\<close>

definition double_sha256 :: "(byte list \<Rightarrow> byte list) \<Rightarrow> byte list \<Rightarrow> byte list" where
  "double_sha256 sha256 data = sha256 (sha256 data)"

definition hex_digit :: "nat \<Rightarrow> char" where
  "hex_digit d = ''0123456789abcdef'' ! d"

text \<open>\<open>bytes.hex()\<close>: two lower-case digits for each byte, the high nibble first.\<close>

definition hex :: "byte list \<Rightarrow> string" where
  "hex bs = concat (map (\<lambda>b. [hex_digit (unat b div 16), hex_digit (unat b mod 16)]) bs)"

definition format_hash :: "byte list \<Rightarrow> string" where
  "format_hash h = hex (rev h)"

text \<open>
  \<open>txid_data\<close>, from the transaction's own bytes (the slice cut to \<open>tx_size\<close>) and the
  offset at which its witnesses start.
\<close>

definition txid_data :: "bool \<Rightarrow> nat \<Rightarrow> byte list \<Rightarrow> byte list" where
  "txid_data segwit off_w tx =
     (if segwit then take 4 tx @ py_slice tx 6 off_w @ last_n 4 tx else tx)"

definition witness_size :: "int \<Rightarrow> int \<Rightarrow> int" where
  "witness_size size_tx off_w = size_tx - off_w - 4"

definition stripped_size :: "int \<Rightarrow> int \<Rightarrow> int" where
  "stripped_size size_tx off_w = size_tx - (2 + witness_size size_tx off_w)"

definition weight :: "int \<Rightarrow> int \<Rightarrow> int" where
  "weight size_tx off_w = stripped_size size_tx off_w * 3 + size_tx"

text \<open>
  \<open>ceil(weight / 4)\<close> divides as floating point. A weight is at most four times the
  length of a slice, which is at most \<open>1024 * 2 ^ 19\<close>, so the quotient is exact and the
  result is the integer ceiling.
\<close>

definition ceil_div_4 :: "int \<Rightarrow> int" where
  "ceil_div_4 w = - ((- w) div 4)"

definition vsize :: "bool \<Rightarrow> int \<Rightarrow> int \<Rightarrow> int" where
  "vsize segwit size_tx off_w =
     (if \<not> segwit then size_tx else ceil_div_4 (weight size_tx off_w))"

section \<open>jmfinder: the scan of a block\<close>

text \<open>What one successful pass through the \<open>try\<close> has computed.\<close>

record decoded_tx =
  parsed :: tx_fields
  txid_bytes :: "byte list"
  tx_vsize :: int
  jm :: "int \<times> int"

text \<open>
  One pass through the \<open>try\<close> on the slice \<open>tx\<close>. The first component is the value of the
  variable \<open>tx_size\<close> afterwards, which a pass that raises after assigning it leaves
  changed; \<open>size0\<close> is its value before.
\<close>

definition decode_attempt :: "byte list \<Rightarrow> nat \<Rightarrow> nat \<times> (error + decoded_tx)" where
  "decode_attempt tx size0 =
     (case parse_fields tx of
        Inl e \<Rightarrow> (size0, Inl e)
      | Inr f \<Rightarrow>
          (let tx' = take (tx_size f) tx in
           if tx_size f \<noteq> length tx' then (tx_size f, Inl ValueError)
           else (case is_jm (int (n_in f)) (int (n_out f)) (map int (out_values f)) of
                   Inl e \<Rightarrow> (tx_size f, Inl e)
                 | Inr r \<Rightarrow>
                     (tx_size f,
                      Inr \<lparr>parsed = f,
                           txid_bytes = txid_data (is_segwit f) (offset_before_tx_witnesses f) tx',
                           tx_vsize = vsize (is_segwit f) (int (tx_size f))
                                        (int (offset_before_tx_witnesses f)),
                           jm = r\<rparr>))))"

text \<open>
  The loop over the slice widths \<open>j\<close>: the first pass that does not raise ends it, and any
  exception moves on to the next width.
\<close>

fun try_widths :: "byte list \<Rightarrow> nat \<Rightarrow> nat list \<Rightarrow> nat \<Rightarrow> nat \<times> decoded_tx option" where
  "try_widths txs_data boff [] size0 = (size0, None)"
| "try_widths txs_data boff (j # js) size0 =
     (let offset_e = boff + 1024 * 2 ^ j;
          tx = py_slice txs_data boff offset_e
      in case decode_attempt tx size0 of
           (size1, Inr d) \<Rightarrow> (size1, Some d)
         | (size1, Inl e) \<Rightarrow> try_widths txs_data boff js size1)"

text \<open>Decoding the transaction at a cursor of the block's transaction data.\<close>

definition decode_tx_at :: "byte list \<Rightarrow> nat \<Rightarrow> nat \<times> decoded_tx option" where
  "decode_tx_at txs_data boff = try_widths txs_data boff [0..<20] 0"

text \<open>\<open>str(n)\<close> for an integer: its decimal digits, after a minus sign when negative.\<close>

definition digit_char :: "nat \<Rightarrow> char" where
  "digit_char d = ''0123456789'' ! d"

fun str_nat :: "nat \<Rightarrow> string" where
  "str_nat n = (if n < 10 then [digit_char n] else str_nat (n div 10) @ [digit_char (n mod 10)])"

declare str_nat.simps [simp del]

definition str_int :: "int \<Rightarrow> string" where
  "str_int k = (if k < 0 then CHR ''-'' # str_nat (nat (- k)) else str_nat (nat k))"

text \<open>
  The variables that the loop over a block's transactions updates: the cursor
  \<open>block_offset\<close>, the counter \<open>processed_txs\<close> and the list \<open>results\<close> of the run.
\<close>

record scan_state =
  block_offset :: nat
  processed_txs :: nat
  results :: "string list"

text \<open>
  \<open>for i in range(n_txs)\<close>, with \<open>i\<close> the index of the transaction and \<open>n\<close> the number of
  iterations left. A transaction that no width decodes leaves \<open>processed_txs\<close> as it is, and
  the cursor moves by whatever \<open>tx_size\<close> holds.
\<close>

fun scan_txs ::
  "(byte list \<Rightarrow> byte list) \<Rightarrow> int \<Rightarrow> byte list \<Rightarrow> nat \<Rightarrow> nat \<Rightarrow> scan_state \<Rightarrow> scan_state" where
  "scan_txs sha256 height txs_data i 0 st = st"
| "scan_txs sha256 height txs_data i (Suc n) st =
     (case decode_tx_at txs_data (block_offset st) of
        (size1, None) \<Rightarrow>
          scan_txs sha256 height txs_data (i + 1) n
            (st\<lparr>block_offset := block_offset st + size1\<rparr>)
      | (size1, Some d) \<Rightarrow>
          (let txid = format_hash (double_sha256 sha256 (txid_bytes d));
               rs = (if fst (jm d) > 0
                     then results st @ [txid @ '','' @ str_int height @ '','' @ str_int (int i)]
                     else results st)
           in scan_txs sha256 height txs_data (i + 1) n
                \<lparr>block_offset = block_offset st + size1,
                 processed_txs = processed_txs st + 1,
                 results = rs\<rparr>))"

datatype ExitStatus = SUCCESS | FAILURE | ARGERROR

text \<open>
  How a run ends: it returns from \<open>main\<close>, it calls \<open>sys.exit\<close> with a status, or an
  exception that nothing catches ends the process.
\<close>

datatype outcome = Completed | Exit ExitStatus | Uncaught error

text \<open>
  One block of the scan: the 80-byte header is skipped, the transaction count is decoded
  outside any \<open>try\<close>, the transactions are scanned, and the run exits with \<open>FAILURE\<close> when
  the count of processed transactions is not the declared one. \<open>rs\<close> is \<open>results\<close> so far.
\<close>

definition process_block ::
  "(byte list \<Rightarrow> byte list) \<Rightarrow> int \<Rightarrow> byte list \<Rightarrow> string list \<Rightarrow> outcome + string list" where
  "process_block sha256 height block rs =
     (let txs_data = drop 80 block in
      case decode_varint txs_data of
        Inl e \<Rightarrow> Inl (Uncaught e)
      | Inr (n_txs, boff) \<Rightarrow>
          (let st = scan_txs sha256 height txs_data 0 n_txs
                      \<lparr>block_offset = boff, processed_txs = 0, results = rs\<rparr>
           in if processed_txs st \<noteq> n_txs then Inl (Exit FAILURE) else Inr (results st)))"

section \<open>jmfinder: the run\<close>

text \<open>
  The REST client as the run sees it: each request returns its decoded answer, or fails,
  in which case \<open>get_response\<close> exits with \<open>FAILURE\<close>.
\<close>

record chain_info =
  blocks :: int
  pruned :: bool
  pruneheight :: int

record btc =
  get_info :: "chain_info option"
  get_blockhash :: "int \<Rightarrow> string option"
  get_block_bin :: "string \<Rightarrow> byte list option"

record args =
  start_arg :: int
  end_arg :: int

fun scan_heights ::
  "(byte list \<Rightarrow> byte list) \<Rightarrow> btc \<Rightarrow> int list \<Rightarrow> string list \<Rightarrow> outcome + string list" where
  "scan_heights sha256 node [] rs = Inr rs"
| "scan_heights sha256 node (height # heights) rs =
     (case get_blockhash node height of
        None \<Rightarrow> Inl (Exit FAILURE)
      | Some blockhash \<Rightarrow>
          (case get_block_bin node blockhash of
             None \<Rightarrow> Inl (Exit FAILURE)
           | Some block \<Rightarrow>
               (case process_block sha256 height block rs of
                  Inl halt \<Rightarrow> Inl halt
                | Inr rs' \<Rightarrow> scan_heights sha256 node heights rs')))"

subsection \<open>The result store\<close>

text \<open>
  The candidate file is a string of characters with code points below 256; a file that
  does not exist reads as the empty string, and mode \<open>a+\<close> creates it. Reading in text mode
  turns \<open>\r\n\<close> and a lone \<open>\r\<close> into \<open>\n\<close>; writing on a POSIX system changes nothing.
\<close>

definition LF :: char where
  "LF = CHR 0x0A"

definition CR :: char where
  "CR = CHR 0x0D"

fun translate_newlines :: "string \<Rightarrow> string" where
  "translate_newlines [] = []"
| "translate_newlines [c] = [if c = CR then LF else c]"
| "translate_newlines (c # d # ds) =
     (if c = CR \<and> d = LF then LF # translate_newlines ds
      else (if c = CR then LF else c) # translate_newlines (d # ds))"

text \<open>Cutting a text after each \<open>\n\<close>; every line keeps its terminator.\<close>

fun split_lines :: "string \<Rightarrow> string list" where
  "split_lines [] = []"
| "split_lines (c # cs) =
     (if c = LF then [c] # split_lines cs
      else (case split_lines cs of
              [] \<Rightarrow> [[c]]
            | l # ls \<Rightarrow> (c # l) # ls))"

definition readlines :: "string \<Rightarrow> string list" where
  "readlines content = split_lines (translate_newlines content)"

text \<open>\<open>str.isspace\<close> on one character, and \<open>str.strip()\<close>.\<close>

definition isspace :: "char \<Rightarrow> bool" where
  "isspace c = (of_char c \<in> {9, 10, 11, 12, 13, 28, 29, 30, 31, 32, 133, 160 :: nat})"

definition strip :: "string \<Rightarrow> string" where
  "strip s = rev (dropWhile isspace (rev (dropWhile isspace s)))"

text \<open>\<open>x.split(',')\<close> and \<open>'\n'.join(xs)\<close>.\<close>

fun split_comma :: "string \<Rightarrow> string list" where
  "split_comma [] = [[]]"
| "split_comma (c # cs) =
     (if c = CHR '','' then [] # split_comma cs
      else (case split_comma cs of
              [] \<Rightarrow> [[c]]
            | w # ws \<Rightarrow> (c # w) # ws))"

fun join_lines :: "string list \<Rightarrow> string" where
  "join_lines [] = []"
| "join_lines [x] = x"
| "join_lines (x # y # ys) = x @ LF # join_lines (y # ys)"

text \<open>
  The sort key \<open>x.split(',')[1]\<close>: the second field, a string; a line without a comma
  raises \<open>IndexError\<close>.
\<close>

definition height_key :: "string \<Rightarrow> string option" where
  "height_key x = (case split_comma x of _ # k # _ \<Rightarrow> Some k | _ \<Rightarrow> None)"

text \<open>
  \<open>sorted(xs, key=...)\<close> computes the key of every element, then sorts stably by the keys,
  which are strings and compare as such: character by character, by code point.
\<close>

definition sorted_by_height_key :: "string list \<Rightarrow> error + string list" where
  "sorted_by_height_key xs =
     (if list_all (\<lambda>x. height_key x \<noteq> None) xs
      then Inr (sort_key (\<lambda>x. the (height_key x)) xs)
      else Inl IndexError)"

text \<open>
  The block under \<open>with open(...)\<close>. The order in which a Python \<open>set\<close> of strings is
  iterated is not fixed by the language; \<open>set_order\<close> stands for it, taking the list the
  set is built from to the list of its elements as iterated. The file is truncated only
  after the sort, so a key that raises leaves the content as it was.
\<close>

definition write_store ::
  "(string list \<Rightarrow> string list) \<Rightarrow> string \<Rightarrow> string list \<Rightarrow> error + string" where
  "write_store set_order store rs =
     (let lines = map strip (readlines store) @ rs in
      case sorted_by_height_key (set_order lines) of
        Inl e \<Rightarrow> Inl e
      | Inr result \<Rightarrow> Inr (join_lines result))"

text \<open>A faithful \<open>set_order\<close> lists every element of the list once.\<close>

definition set_order_ok :: "(string list \<Rightarrow> string list) \<Rightarrow> bool" where
  "set_order_ok set_order = (\<forall>xs. distinct (set_order xs) \<and> set (set_order xs) = set xs)"

text \<open>The records a store holds: its lines as the next run reads them.\<close>

definition store_records :: "string \<Rightarrow> string list" where
  "store_records store = map strip (readlines store)"

text \<open>
  The run, from the answer to \<open>get_info\<close> to the rewritten store: the outcome and the
  content of the candidate file afterwards.
\<close>

definition main ::
  "(byte list \<Rightarrow> byte list) \<Rightarrow> (string list \<Rightarrow> string list) \<Rightarrow> btc \<Rightarrow> args \<Rightarrow> string
     \<Rightarrow> outcome \<times> string" where
  "main sha256 set_order node a store =
     (case get_info node of
        None \<Rightarrow> (Exit FAILURE, store)
      | Some info \<Rightarrow>
          (let end_block = (if end_arg a \<noteq> 0 then end_arg a else blocks info);
               start_block = (if start_arg a < 0 then end_block - \<bar>start_arg a\<bar> + 1
                              else start_arg a)
           in if pruned info \<and> start_block < pruneheight info then (Exit ARGERROR, store)
              else (case scan_heights sha256 node [start_block..end_block] [] of
                      Inl halt \<Rightarrow> (halt, store)
                    | Inr rs \<Rightarrow>
                        (case write_store set_order store rs of
                           Inl e \<Rightarrow> (Uncaught e, store)
                         | Inr store' \<Rightarrow> (Completed, store')))))"

subsection \<open>Auxiliary notions for the proofs\<close>

text \<open>The count that a counter holds for a key, 0 for a key it does not have.\<close>

definition cnt :: "(int \<times> int) list \<Rightarrow> int \<Rightarrow> int" where
  "cnt kcs k = (case map_of kcs k of None \<Rightarrow> 0 | Some c \<Rightarrow> c)"

subsection \<open>Example transactions\<close>

text \<open>
  A legacy transaction of 250 bytes and a segwit transaction of 302 bytes, each with one
  input and one output. The segwit one has 198 bytes before its witnesses and 100 bytes of
  witness data.
\<close>

definition legacy_250 :: "byte list" where
  "legacy_250 =
     [1, 0, 0, 0] @ [1] @ replicate 32 17 @ [0, 0, 0, 0] @ [0] @ [255, 255, 255, 255] @
     [1] @ [64, 66, 15, 0, 0, 0, 0, 0] @ [190] @ replicate 190 81 @ [0, 0, 0, 0]"

definition segwit_302 :: "byte list" where
  "segwit_302 =
     [2, 0, 0, 0] @ [0, 1] @ [1] @ replicate 32 17 @ [0, 0, 0, 0] @ [0] @ [255, 255, 255, 255] @
     [1] @ [64, 66, 15, 0, 0, 0, 0, 0] @ [140] @ replicate 140 81 @
     [1] @ [98] @ replicate 98 48 @ [0, 0, 0, 0]"

text \<open>
  Two legacy transactions of 60 bytes each, one input and one output of 1000000 base units,
  with locktime 0 and locktime 7.
\<close>

definition tx_lock0 :: "byte list" where
  "tx_lock0 =
     [1, 0, 0, 0] @ [1] @ replicate 32 17 @ [0, 0, 0, 0] @ [0] @ [255, 255, 255, 255] @
     [1] @ [64, 66, 15, 0, 0, 0, 0, 0] @ [0] @ [0, 0, 0, 0]"

definition tx_lock7 :: "byte list" where
  "tx_lock7 =
     [1, 0, 0, 0] @ [1] @ replicate 32 34 @ [1, 0, 0, 0] @ [0] @ [255, 255, 255, 255] @
     [1] @ [64, 66, 15, 0, 0, 0, 0, 0] @ [0] @ [7, 0, 0, 0]"

section \<open>Properties of the primitive decoders\<close>

lemma le_bytes_sum: "le_bytes bs = (\<Sum>i<length bs. unat (bs ! i) * 256 ^ i)"
proof (induction bs)
  case Nil
  then show ?case by simp
next
  case (Cons b bs)
  have "(\<Sum>i<Suc (length bs). unat ((b # bs) ! i) * 256 ^ i)
        = unat b + (\<Sum>i<length bs. unat (bs ! i) * 256 ^ Suc i)"
    by (simp add: sum.lessThan_Suc_shift del: sum.lessThan_Suc)
  also have "\<dots> = unat b + 256 * (\<Sum>i<length bs. unat (bs ! i) * 256 ^ i)"
    by (simp add: sum_distrib_left mult.assoc mult.left_commute)
  finally show ?case using Cons.IH by simp
qed

lemma decode_varint_small:
  "unat b \<le> 252 \<Longrightarrow> decode_varint (b # rest) = Inr (unat b, 1)"
  by (simp add: decode_varint_def Let_def)

lemma decode_varint_wide:
  assumes "(b, k) \<in> {(253, 2), (254, 4), (255, 8)}"
  shows "decode_varint (b # rest) =
           (if k \<le> length rest then Inr (le_bytes (take k rest), k + 1) else Inl StructError)"
  using assms by (auto simp: decode_varint_def Let_def struct_unpack_def py_slice_def min_def)

text \<open>
  Claim C8. \<open>decode_varint\<close> on any byte sequence: a first byte from 0 to 252 is the
  value itself, with one byte consumed; a first byte 253, 254 or 255 selects the
  little-endian value of the next 2, 4 or 8 bytes, with 3, 5 or 9 bytes consumed; the call
  fails on the empty input and whenever fewer bytes follow than the selector requires.
\<close>

theorem decode_varint_cases:
  "decode_varint [] = Inl IndexError \<and>
   (unat b \<le> 252 \<longrightarrow> decode_varint (b # rest) = Inr (unat b, 1)) \<and>
   ((b, k) \<in> {(253, 2), (254, 4), (255, 8)} \<longrightarrow>
      (k \<le> length rest \<longrightarrow>
         decode_varint (b # rest) = Inr (\<Sum>i<k. unat (rest ! i) * 256 ^ i, k + 1)) \<and>
      (length rest < k \<longrightarrow> decode_varint (b # rest) = Inl StructError))"
proof (intro conjI impI)
  show "decode_varint [] = Inl IndexError"
    by (simp add: decode_varint_def)
next
  assume "unat b \<le> 252"
  then show "decode_varint (b # rest) = Inr (unat b, 1)"
    by (rule decode_varint_small)
next
  assume sel: "(b, k) \<in> {(253, 2), (254, 4), (255, 8)}" and len: "k \<le> length rest"
  have "le_bytes (take k rest) = (\<Sum>i<k. unat (rest ! i) * 256 ^ i)"
    using len by (simp add: le_bytes_sum min_def)
  then show "decode_varint (b # rest) = Inr (\<Sum>i<k. unat (rest ! i) * 256 ^ i, k + 1)"
    using decode_varint_wide [OF sel, of rest] len by simp
next
  assume sel: "(b, k) \<in> {(253, 2), (254, 4), (255, 8)}" and len: "length rest < k"
  then show "decode_varint (b # rest) = Inl StructError"
    using decode_varint_wide [OF sel, of rest] by simp
qed

theorem decode_varint_cases_witness:
  "decode_varint [] = Inl IndexError \<and>
   decode_varint [252, 9] = Inr (252, 1) \<and>
   decode_varint [253, 1, 2, 9] = Inr (513, 3) \<and>
   decode_varint [253, 1] = Inl StructError \<and>
   decode_varint [254, 1, 0, 0, 1, 9] = Inr (16777217, 5) \<and>
   decode_varint [254, 1, 0, 0] = Inl StructError \<and>
   decode_varint [255, 0, 1, 0, 0, 0, 0, 0, 0] = Inr (256, 9) \<and>
   decode_varint [255] = Inl StructError"
  using decode_varint_cases [of 252 "[9]" 0]
    decode_varint_cases [of 253 "[1, 2, 9]" 2]
    decode_varint_cases [of 253 "[1]" 2]
    decode_varint_cases [of 254 "[1, 0, 0, 1, 9]" 4]
    decode_varint_cases [of 254 "[1, 0, 0]" 4]
    decode_varint_cases [of 255 "[0, 1, 0, 0, 0, 0, 0, 0]" 8]
    decode_varint_cases [of 255 "[]" 8]
  by (simp add: lessThan_nat_numeral lessThan_Suc)

section \<open>Properties of the classifier\<close>

lemma map_of_counter_add:
  "map_of (counter_add x kcs) k =
     (if k = x then Some (cnt kcs x + 1) else map_of kcs k)"
  by (induction x kcs rule: counter_add.induct) (auto simp: cnt_def)

lemma keys_counter_add: "fst ` set (counter_add x kcs) = insert x (fst ` set kcs)"
  by (induction x kcs rule: counter_add.induct) auto

lemma distinct_counter_add:
  "distinct (map fst kcs) \<Longrightarrow> distinct (map fst (counter_add x kcs))"
proof (induction x kcs rule: counter_add.induct)
  case (1 x)
  then show ?case by simp
next
  case (2 x k c kcs)
  then show ?case
    using keys_counter_add [of x kcs] by (auto simp: image_iff)
qed

lemma cnt_counter_add: "cnt (counter_add x kcs) k = cnt kcs k + (if k = x then 1 else 0)"
  by (simp add: cnt_def map_of_counter_add)

lemma cnt_fold: "cnt (fold counter_add vs kcs) k = cnt kcs k + int (count_list vs k)"
  by (induction vs arbitrary: kcs) (auto simp: cnt_counter_add)

lemma keys_fold: "fst ` set (fold counter_add vs kcs) = fst ` set kcs \<union> set vs"
  by (induction vs arbitrary: kcs) (auto simp: keys_counter_add)

lemma distinct_fold:
  "distinct (map fst kcs) \<Longrightarrow> distinct (map fst (fold counter_add vs kcs))"
  by (induction vs arbitrary: kcs) (auto simp: distinct_counter_add)

lemma Counter_keys: "fst ` set (Counter vs) = set vs"
  by (simp add: Counter_def keys_fold)

lemma Counter_item:
  assumes "(k, c) \<in> set (Counter vs)"
  shows "k \<in> set vs \<and> c = int (count_list vs k)"
proof -
  have d: "distinct (map fst (Counter vs))"
    by (simp add: Counter_def distinct_fold)
  have "map_of (Counter vs) k = Some c"
    using assms d by simp
  then have "cnt (Counter vs) k = c"
    by (simp add: cnt_def)
  moreover have "cnt (Counter vs) k = int (count_list vs k)"
    using cnt_fold [of vs "[]" k] by (simp add: Counter_def cnt_def)
  moreover have "k \<in> set vs"
    using assms Counter_keys [of vs] by force
  ultimately show ?thesis by simp
qed

lemma Counter_has:
  assumes "k \<in> set vs"
  shows "(k, int (count_list vs k)) \<in> set (Counter vs)"
proof -
  from assms have "k \<in> fst ` set (Counter vs)"
    by (simp add: Counter_keys)
  then obtain c where "(k, c) \<in> set (Counter vs)"
    by auto
  then show ?thesis
    using Counter_item by blast
qed

lemma max_item_mem: "max_item best kcs \<in> set (best # kcs)"
  by (induction best kcs rule: max_item.induct) auto

lemma max_item_ge_best: "snd best \<le> snd (max_item best kcs)"
proof (induction kcs arbitrary: best)
  case Nil
  then show ?case by simp
next
  case (Cons kc kcs)
  have "snd best \<le> snd (if snd kc > snd best then kc else best)"
    by simp
  also have "\<dots> \<le> snd (max_item (if snd kc > snd best then kc else best) kcs)"
    by (rule Cons.IH)
  finally show ?case by simp
qed

lemma max_item_ge: "x \<in> set (best # kcs) \<Longrightarrow> snd x \<le> snd (max_item best kcs)"
proof (induction kcs arbitrary: best)
  case Nil
  then show ?case by simp
next
  case (Cons kc kcs)
  let ?b = "if snd kc > snd best then kc else best"
  show ?case
  proof (cases "x \<in> set kcs")
    case True
    then show ?thesis using Cons.IH [of ?b] by simp
  next
    case False
    with Cons.prems have "snd x \<le> snd ?b" by auto
    also have "\<dots> \<le> snd (max_item ?b kcs)" by (rule max_item_ge_best)
    finally show ?thesis by simp
  qed
qed

lemma most_common_1_nonempty:
  assumes "vs \<noteq> []"
  shows "\<exists>v. most_common_1 (Counter vs) = [(v, int (count_list vs v))] \<and> v \<in> set vs \<and>
             (\<forall>x. count_list vs x \<le> count_list vs v)"
proof -
  from assms have "set (Counter vs) \<noteq> {}"
    using Counter_keys [of vs] by auto
  then obtain kc kcs where C: "Counter vs = kc # kcs"
    by (cases "Counter vs") auto
  obtain v f where m: "max_item kc kcs = (v, f)"
    by (cases "max_item kc kcs")
  have "(v, f) \<in> set (Counter vs)"
    using max_item_mem [of kc kcs] by (simp add: C m)
  then have v: "v \<in> set vs" and f: "f = int (count_list vs v)"
    using Counter_item by blast+
  have "count_list vs x \<le> count_list vs v" for x
  proof (cases "x \<in> set vs")
    case True
    then have "(x, int (count_list vs x)) \<in> set (kc # kcs)"
      using Counter_has [of x vs] by (simp add: C)
    from max_item_ge [OF this] show ?thesis
      by (simp add: m f)
  next
    case False
    then show ?thesis by (simp add: count_list_0_iff)
  qed
  then show ?thesis
    using v f by (auto simp: most_common_1_def C m)
qed

lemma assumed_cj_outs_ceiling:
  "(if n mod 2 \<noteq> 0 then n div 2 + 1 else n div 2) = \<lceil>real_of_int n / 2\<rceil>" for n :: int
proof -
  have "n = 2 * (n div 2) + n mod 2" by simp
  moreover have "n mod 2 = 0 \<or> n mod 2 = 1" by presburger
  ultimately consider "n = 2 * (n div 2)" "n mod 2 = 0" | "n = 2 * (n div 2) + 1" "n mod 2 = 1"
    by auto
  then show ?thesis
  proof cases
    case 1
    have "real_of_int n / 2 = real_of_int (n div 2)"
      using 1(1) by (metis nonzero_mult_div_cancel_left of_int_mult of_int_numeral zero_neq_numeral)
    then show ?thesis using 1(2) by simp
  next
    case 2
    have "real_of_int n = 2 * real_of_int (n div 2) + 1"
      using 2(1) by (metis of_int_1 of_int_add of_int_mult of_int_numeral)
    then have "\<lceil>real_of_int n / 2\<rceil> = n div 2 + 1"
      by (simp add: ceiling_eq_iff)
    then show ?thesis using 2(2) by simp
  qed
qed

text \<open>
  Claim C1. For a non-empty list of values, let \<open>v\<close> be the most frequent value (the
  first one in the list among those of greatest frequency) and \<open>f\<close> its frequency.
  \<open>is_jm\<close> returns \<open>(v, f)\<close> when \<open>f\<close> equals \<open>ceil(n_out / 2)\<close>, that number is at
  least 3 and at most \<open>n_in\<close>, and \<open>v\<close> is at least 75000; it returns \<open>(0, 0)\<close> when any
  of these fails; and the result is \<open>(0, 0)\<close> exactly when the transaction does not match.
\<close>

theorem is_jm_classifies:
  assumes "vals \<noteq> []"
  shows "\<exists>v f. most_common_1 (Counter vals) = [(v, f)] \<and>
           v \<in> set vals \<and> f = int (count_list vals v) \<and>
           (\<forall>x. int (count_list vals x) \<le> f) \<and>
           (let g = \<lceil>real_of_int nout / 2\<rceil>;
                matches = (f = g \<and> 3 \<le> g \<and> g \<le> nin \<and> 75000 \<le> v)
            in is_jm nin nout vals = Inr (if matches then (v, f) else (0, 0)) \<and>
               (is_jm nin nout vals = Inr (0, 0) \<longleftrightarrow> \<not> matches))"
proof -
  from most_common_1_nonempty [OF assms] obtain v where
    m: "most_common_1 (Counter vals) = [(v, int (count_list vals v))]" and
    v: "v \<in> set vals" and mx: "\<forall>x. count_list vals x \<le> count_list vals v"
    by blast
  show ?thesis
    using m v mx assumed_cj_outs_ceiling [of nout]
    by (intro exI [of _ v] exI [of _ "int (count_list vals v)"])
       (auto simp: is_jm_def Let_def MIN_PARTICIPANTS_def MIN_CJ_AMOUNT_def)
qed


theorem is_jm_classifies_witness:
  "[100000, 100000, 100000, 50, 60, 70] \<noteq> ([] :: int list) \<and>
   is_jm 5 6 [100000, 100000, 100000, 50, 60, 70] = Inr (100000, 3) \<and>
   is_jm 5 6 [50000, 50000, 50000, 50, 60, 70] = Inr (0, 0) \<and>
   is_jm 2 6 [100000, 100000, 100000, 50, 60, 70] = Inr (0, 0) \<and>
   is_jm 5 6 [100000, 100000, 100000, 100000, 60, 70] = Inr (0, 0)"
proof -
  have c: "\<lceil>real_of_int 6 / 2\<rceil> = 3"
    by (simp add: ceiling_eq_iff)
  have m1: "most_common_1 (Counter [100000, 100000, 100000, 50, 60, 70]) = [(100000, 3)]"
    and m2: "most_common_1 (Counter [50000, 50000, 50000, 50, 60, 70]) = [(50000, 3)]"
    and m3: "most_common_1 (Counter [100000, 100000, 100000, 100000, 60, 70]) = [(100000, 4)]"
    by (simp_all add: most_common_1_def Counter_def)
  have "is_jm 5 6 [100000, 100000, 100000, 50, 60, 70] = Inr (100000, 3)"
    using is_jm_classifies [of "[100000, 100000, 100000, 50, 60, 70]" 6 5] c m1
    by (auto simp: Let_def)
  moreover have "is_jm 5 6 [50000, 50000, 50000, 50, 60, 70] = Inr (0, 0)"
    using is_jm_classifies [of "[50000, 50000, 50000, 50, 60, 70]" 6 5] c m2
    by (auto simp: Let_def)
  moreover have "is_jm 2 6 [100000, 100000, 100000, 50, 60, 70] = Inr (0, 0)"
    using is_jm_classifies [of "[100000, 100000, 100000, 50, 60, 70]" 6 2] c m1
    by (auto simp: Let_def)
  moreover have "is_jm 5 6 [100000, 100000, 100000, 100000, 60, 70] = Inr (0, 0)"
    using is_jm_classifies [of "[100000, 100000, 100000, 100000, 60, 70]" 6 5] c m3
    by (auto simp: Let_def)
  ultimately show ?thesis by simp
qed

lemma is_jm_empty:
  "is_jm nin nout [] =
     (if \<lceil>real_of_int nout / 2\<rceil> < 3 \<or> nin < \<lceil>real_of_int nout / 2\<rceil> then Inr (0, 0)
      else Inl IndexError)"
  using assumed_cj_outs_ceiling [of nout]
  by (auto simp: is_jm_def Let_def MIN_PARTICIPANTS_def most_common_1_def Counter_def)

lemma is_jm_nonempty: "vals \<noteq> [] \<Longrightarrow> \<exists>r. is_jm nin nout vals = Inr r"
  using most_common_1_nonempty [of vals] by (auto simp: is_jm_def Let_def)

text \<open>
  Claim C10. \<open>is_jm\<close> returns a result for every non-empty list of values. With an empty
  list, \<open>n_out\<close> at least 5 and \<open>n_in\<close> at least \<open>ceil(n_out / 2)\<close> it raises
  \<open>IndexError\<close>, from taking the head of an empty \<open>most_common(1)\<close>. When the list has
  \<open>n_out\<close> elements it returns a result. It raises exactly when the list is empty and
  \<open>ceil(n_out / 2)\<close> is at least 3 and at most \<open>n_in\<close>.
\<close>

theorem is_jm_total:
  "(vals \<noteq> [] \<longrightarrow> (\<exists>r. is_jm nin nout vals = Inr r)) \<and>
   (5 \<le> nout \<and> \<lceil>real_of_int nout / 2\<rceil> \<le> nin \<longrightarrow> is_jm nin nout [] = Inl IndexError) \<and>
   (int (length vals) = nout \<longrightarrow> (\<exists>r. is_jm nin nout vals = Inr r)) \<and>
   ((\<exists>e. is_jm nin nout vals = Inl e) \<longleftrightarrow>
      vals = [] \<and> 3 \<le> \<lceil>real_of_int nout / 2\<rceil> \<and> \<lceil>real_of_int nout / 2\<rceil> \<le> nin)"
proof (intro conjI impI)
  assume "vals \<noteq> []"
  then show "\<exists>r. is_jm nin nout vals = Inr r"
    by (rule is_jm_nonempty)
next
  assume a: "5 \<le> nout \<and> \<lceil>real_of_int nout / 2\<rceil> \<le> nin"
  then have "2 < real_of_int nout / 2"
    by simp
  then have "3 \<le> \<lceil>real_of_int nout / 2\<rceil>"
    by (simp add: le_ceiling_iff)
  with a show "is_jm nin nout [] = Inl IndexError"
    by (simp add: is_jm_empty)
next
  assume len: "int (length vals) = nout"
  show "\<exists>r. is_jm nin nout vals = Inr r"
  proof (cases "vals = []")
    case True
    with len have "nout = 0" by simp
    then show ?thesis using True by (simp add: is_jm_empty)
  next
    case False
    then show ?thesis by (rule is_jm_nonempty)
  qed
next
  show "(\<exists>e. is_jm nin nout vals = Inl e) \<longleftrightarrow>
      vals = [] \<and> 3 \<le> \<lceil>real_of_int nout / 2\<rceil> \<and> \<lceil>real_of_int nout / 2\<rceil> \<le> nin"
  proof (cases "vals = []")
    case True
    then show ?thesis by (auto simp: is_jm_empty)
  next
    case False
    then show ?thesis using is_jm_nonempty [of vals nin nout] by auto
  qed
qed

theorem is_jm_total_witness:
  "[75000, 75000, 75000, 1, 2] \<noteq> ([] :: int list) \<and>
   (\<exists>r. is_jm 3 5 [75000, 75000, 75000, 1, 2] = Inr r) \<and>
   (5 :: int) \<le> 5 \<and> \<lceil>real_of_int 5 / 2\<rceil> \<le> 3 \<and> is_jm 3 5 [] = Inl IndexError \<and>
   int (length ([] :: int list)) = 0 \<and> (\<exists>r. is_jm 3 0 [] = Inr r)"
proof -
  have c: "\<lceil>real_of_int 5 / 2\<rceil> = 3"
    by (simp add: ceiling_eq_iff)
  show ?thesis
    using is_jm_total [of "[75000, 75000, 75000, 1, 2]" 3 5] is_jm_total [of "[]" 3 5]
      is_jm_total [of "[]" 3 0] c
    by simp
qed

section \<open>Properties of the transaction decoder\<close>

text \<open>The definitions that evaluating the decoder on a concrete slice unfolds.\<close>

lemmas eval_defs = parse_fields_def decode_uint32_def decode_uint64_def struct_unpack_def
  last_n_def py_slice_def decode_varint_def Let_def decode_attempt_def is_jm_def
  MIN_PARTICIPANTS_def MIN_CJ_AMOUNT_def most_common_1_def Counter_def txid_data_def vsize_def
  weight_def stripped_size_def witness_size_def ceil_div_4_def

lemma decode_tx_at_first:
  "decode_attempt (py_slice d b (b + 1024)) 0 = (s, Inr x) \<Longrightarrow> decode_tx_at d b = (s, Some x)"
  by (simp add: decode_tx_at_def upt_conv_Cons Let_def)

lemma decode_attempt_Inr:
  assumes "decode_attempt tx s0 = (sz, Inr d)"
  shows "parse_fields tx = Inr (parsed d) \<and> sz = tx_size (parsed d) \<and> sz \<le> length tx \<and>
         txid_bytes d = txid_data (is_segwit (parsed d)) (offset_before_tx_witnesses (parsed d))
                          (take sz tx) \<and>
         tx_vsize d = vsize (is_segwit (parsed d)) (int sz)
                        (int (offset_before_tx_witnesses (parsed d))) \<and>
         is_jm (int (n_in (parsed d))) (int (n_out (parsed d)))
               (map int (out_values (parsed d))) = Inr (jm d)"
  using assms
  by (auto simp: decode_attempt_def Let_def split: sum.splits if_splits)

lemma try_widths_Some:
  assumes "try_widths txs_data boff js s0 = (sz, Some d)"
  shows "\<exists>j s. j \<in> set js \<and>
           decode_attempt (py_slice txs_data boff (boff + 1024 * 2 ^ j)) s = (sz, Inr d)"
  using assms
proof (induction js arbitrary: s0)
  case Nil
  then show ?case by simp
next
  case (Cons j js)
  obtain s1 r where a: "decode_attempt (py_slice txs_data boff (boff + 1024 * 2 ^ j)) s0 = (s1, r)"
    by (cases "decode_attempt (py_slice txs_data boff (boff + 1024 * 2 ^ j)) s0")
  show ?case
  proof (cases r)
    case (Inl e)
    with Cons.prems a have "try_widths txs_data boff js s1 = (sz, Some d)"
      by (simp add: Let_def)
    from Cons.IH [OF this] show ?thesis by auto
  next
    case (Inr d')
    with Cons.prems a have "s1 = sz" "d' = d"
      by (simp_all add: Let_def)
    with a Inr show ?thesis by auto
  qed
qed

lemma decode_tx_at_Some:
  assumes "decode_tx_at txs_data boff = (sz, Some d)"
  shows "\<exists>j s. j < 20 \<and>
           decode_attempt (py_slice txs_data boff (boff + 1024 * 2 ^ j)) s = (sz, Inr d)"
  using try_widths_Some [of txs_data boff "[0..<20]" 0 sz d] assms
  by (auto simp: decode_tx_at_def)

lemma parse_witness_items_mono: "parse_witness_items n tx off = Inr off' \<Longrightarrow> off \<le> off'"
proof (induction n arbitrary: off)
  case 0
  then show ?case by simp
next
  case (Suc n)
  then show ?case
    by (fastforce split: sum.splits prod.splits)
qed

lemma parse_witnesses_mono: "parse_witnesses n tx off = Inr off' \<Longrightarrow> off \<le> off'"
proof (induction n arbitrary: off)
  case 0
  then show ?case by simp
next
  case (Suc n)
  from Suc.prems obtain k v o1 where
    "decode_varint (drop off tx) = Inr (k, v)"
    "parse_witness_items k tx (off + v) = Inr o1"
    "parse_witnesses n tx o1 = Inr off'"
    by (auto split: sum.splits prod.splits)
  then show ?case
    using parse_witness_items_mono [of k tx "off + v" o1] Suc.IH [of o1] by simp
qed

lemma parse_fields_offsets:
  assumes "parse_fields tx = Inr f"
  shows "offset_before_tx_witnesses f + 4 \<le> tx_size f"
  using assms
  by (auto simp: parse_fields_def Let_def split: sum.splits prod.splits if_splits
           dest: parse_witnesses_mono)

lemma ceil_div_4_ceiling: "ceil_div_4 w = \<lceil>real_of_int w / 4\<rceil>"
  using ceiling_divide_eq_div [of w 4, where 'a = real] by (simp add: ceil_div_4_def)

lemma py_slice_length_width: "length (py_slice xs a (a + w)) \<le> w"
  by (simp add: py_slice_def)

lemma py_slice_length_rest: "length (py_slice xs a (a + w)) \<le> length xs - a"
  by (simp add: py_slice_def)

text \<open>
  Claim C5, as amended. For a transaction that \<open>main\<close> decodes, \<open>tx_size\<close> is the number of
  bytes consumed, within the block. Without witnesses its virtual size is that length.
  With witnesses, \<open>witness_size = total - offset_before_tx_witnesses - 4\<close>,
  \<open>stripped_size = total - 2 - witness_size\<close>, \<open>weight = stripped_size * 3 + total\<close> and the
  virtual size is \<open>ceil(weight / 4)\<close>, with the weight small enough for the floating-point
  division to be exact; a stripped size of 200 and a witness size of 100 give a total of
  302, a weight of 902 and a virtual size of 226.
\<close>

theorem vsize_decoded:
  assumes "decode_tx_at txs_data boff = (sz, Some d)"
  shows "tx_size (parsed d) = sz \<and> sz \<le> length txs_data - boff \<and>
         (\<not> is_segwit (parsed d) \<longrightarrow> tx_vsize d = int sz) \<and>
         (is_segwit (parsed d) \<longrightarrow>
            (let total = int sz;
                 witness = total - int (offset_before_tx_witnesses (parsed d)) - 4;
                 stripped = total - 2 - witness;
                 wt = stripped * 3 + total
             in tx_vsize d = \<lceil>real_of_int wt / 4\<rceil> \<and> 0 \<le> witness \<and> wt < 2 ^ 53 \<and>
                (stripped = 200 \<and> witness = 100 \<longrightarrow>
                   total = 302 \<and> wt = 902 \<and> tx_vsize d = 226)))"
proof -
  from decode_tx_at_Some [OF assms] obtain j s where
    j: "j < 20" and a: "decode_attempt (py_slice txs_data boff (boff + 1024 * 2 ^ j)) s = (sz, Inr d)"
    by blast
  let ?tx = "py_slice txs_data boff (boff + 1024 * 2 ^ j)"
  let ?off = "int (offset_before_tx_witnesses (parsed d))"
  note D = decode_attempt_Inr [OF a]
  have "(2::nat) ^ j \<le> 2 ^ 19"
    using j by (intro power_increasing) auto
  then have "length ?tx \<le> 1024 * 2 ^ 19"
    using py_slice_length_width [of txs_data boff "1024 * 2 ^ j"] by simp
  with D have szb: "int sz \<le> 536870912"
    by simp
  have szl: "sz \<le> length txs_data - boff"
    using D py_slice_length_rest [of txs_data boff "1024 * 2 ^ j"] by simp
  have off: "?off + 4 \<le> int sz"
    using D parse_fields_offsets [of ?tx "parsed d"] by simp
  have c1: "tx_size (parsed d) = sz"
    using D by simp
  have c2: "\<not> is_segwit (parsed d) \<longrightarrow> tx_vsize d = int sz"
    using D by (simp add: vsize_def)
  have c3: "let total = int sz;
                 witness = total - ?off - 4;
                 stripped = total - 2 - witness;
                 wt = stripped * 3 + total
             in tx_vsize d = \<lceil>real_of_int wt / 4\<rceil> \<and> 0 \<le> witness \<and> wt < 2 ^ 53 \<and>
                (stripped = 200 \<and> witness = 100 \<longrightarrow>
                   total = 302 \<and> wt = 902 \<and> tx_vsize d = 226)"
    if seg: "is_segwit (parsed d)"
  proof -
    let ?wt = "(int sz - 2 - (int sz - ?off - 4)) * 3 + int sz"
    have v: "tx_vsize d = \<lceil>real_of_int ?wt / 4\<rceil>"
      using D seg
      by (simp add: vsize_def ceil_div_4_ceiling weight_def stripped_size_def witness_size_def
               algebra_simps)
    have b: "?wt < 2 ^ 53"
      using off szb by simp
    have e: "\<lceil>real_of_int 902 / 4\<rceil> = (226::int)"
      by (simp add: ceiling_eq_iff)
    have ex: "int sz = 302 \<and> ?wt = 902 \<and> tx_vsize d = 226"
      if "int sz - 2 - (int sz - ?off - 4) = 200" "int sz - ?off - 4 = 100"
    proof -
      from that have "int sz = 302" "?wt = 902" by simp_all
      with v e show ?thesis by simp
    qed
    have w0: "0 \<le> int sz - ?off - 4"
      using off by simp
    have last: "int sz - 2 - (int sz - ?off - 4) = 200 \<and> int sz - ?off - 4 = 100 \<longrightarrow>
                int sz = 302 \<and> ?wt = 902 \<and> tx_vsize d = 226"
      using ex by blast
    show ?thesis
      unfolding Let_def by (intro conjI) (rule v, rule w0, rule b, rule last)
  qed
  show ?thesis
    using c1 c2 c3 szl by blast
qed

lemma legacy_250_attempt:
  "\<exists>d. decode_attempt (py_slice legacy_250 0 (0 + 1024)) 0 = (250, Inr d) \<and>
        \<not> is_segwit (parsed d)"
  by (simp add: legacy_250_def eval_defs)

lemma segwit_302_attempt:
  "\<exists>d. decode_attempt (py_slice segwit_302 0 (0 + 1024)) 0 = (302, Inr d) \<and>
        is_segwit (parsed d) \<and> offset_before_tx_witnesses (parsed d) = 198 \<and> tx_vsize d = 226"
  by (simp add: segwit_302_def eval_defs)

theorem vsize_decoded_witness:
  "(\<exists>d. decode_tx_at legacy_250 0 = (250, Some d) \<and> \<not> is_segwit (parsed d) \<and> tx_vsize d = 250) \<and>
   (\<exists>d. decode_tx_at segwit_302 0 = (302, Some d) \<and> is_segwit (parsed d) \<and>
        offset_before_tx_witnesses (parsed d) = 198 \<and> tx_vsize d = 226)"
proof -
  from legacy_250_attempt obtain d1 where
    d1: "decode_tx_at legacy_250 0 = (250, Some d1)" and s1: "\<not> is_segwit (parsed d1)"
    using decode_tx_at_first by blast
  from segwit_302_attempt obtain d2 where
    d2: "decode_tx_at segwit_302 0 = (302, Some d2)" and s2: "is_segwit (parsed d2)"
      "offset_before_tx_witnesses (parsed d2) = 198"
    using decode_tx_at_first by blast
  have "tx_vsize d1 = 250"
    using vsize_decoded [OF d1] s1 by simp
  moreover have "tx_vsize d2 = 226"
  proof -
    have "\<lceil>real_of_int 902 / 4\<rceil> = (226::int)"
      by (simp add: ceiling_eq_iff)
    then show ?thesis
      using vsize_decoded [OF d2] s2 by (simp add: Let_def)
  qed
  ultimately show ?thesis
    using d1 d2 s1 s2 by blast
qed

text \<open>
  The worked example of claim C5 as the claim states it (total 304, weight 904) does not
  hold: the segwit example transaction has stripped size 200 and witness size 100, and its
  total length is 302 and its weight 902.
\<close>

theorem vsize_example_counterexample:
  "fst (decode_attempt (py_slice segwit_302 0 (0 + 1024)) 0) = 302 \<and>
   map_sum id (\<lambda>d. (is_segwit (parsed d), offset_before_tx_witnesses (parsed d), tx_vsize d))
     (snd (decode_attempt (py_slice segwit_302 0 (0 + 1024)) 0)) = Inr (True, 198, 226) \<and>
   stripped_size 302 198 = 200 \<and> witness_size 302 198 = 100 \<and> weight 302 198 = 902 \<and>
   \<not> ((302 :: int) = 304 \<and> weight 302 198 = 904 \<and> vsize True 302 198 = 226)"
  by (simp add: segwit_302_def eval_defs)

subsection \<open>The locktime of a decoded transaction\<close>

lemma two_txs_first_attempt:
  "\<exists>d. decode_attempt (py_slice (tx_lock0 @ tx_lock7) 0 (0 + 1024)) 0 = (60, Inr d) \<and>
        locktime (parsed d) = 7 \<and> version (parsed d) = 1 \<and> \<not> is_segwit (parsed d) \<and>
        n_in (parsed d) = 1 \<and> out_values (parsed d) = [1000000]"
  by (simp add: tx_lock0_def tx_lock7_def eval_defs)

lemma resliced_attempt:
  "\<exists>d. decode_attempt (py_slice (py_slice (tx_lock0 @ tx_lock7) 0 (0 + 60)) 0 (0 + 1024)) 0
          = (60, Inr d) \<and>
        locktime (parsed d) = 0 \<and> version (parsed d) = 1 \<and> \<not> is_segwit (parsed d) \<and>
        n_in (parsed d) = 1 \<and> out_values (parsed d) = [1000000]"
  by (simp add: tx_lock0_def tx_lock7_def eval_defs)

text \<open>
  Claim C7 says that the locktime of a decoded transaction is the little-endian value of
  the last four bytes of its own byte range. The decoder reads it from the last four bytes
  of the slice it was given, before it knows where the transaction ends: in a buffer that
  holds the transaction with locktime 0 followed by the one with locktime 7, the first
  transaction (60 bytes) is decoded with locktime 7, while the last four of its 60 bytes
  decode to 0.
\<close>

theorem locktime_not_from_transaction:
  "\<exists>d. decode_tx_at (tx_lock0 @ tx_lock7) 0 = (60, Some d) \<and>
        locktime (parsed d) = 7 \<and>
        decode_uint32 (last_n 4 (py_slice (tx_lock0 @ tx_lock7) 0 (0 + 60))) = Inr 0"
proof -
  from two_txs_first_attempt obtain d where
    "decode_tx_at (tx_lock0 @ tx_lock7) 0 = (60, Some d)" "locktime (parsed d) = 7"
    using decode_tx_at_first by blast
  moreover have "decode_uint32 (last_n 4 (py_slice (tx_lock0 @ tx_lock7) 0 (0 + 60))) = Inr 0"
    by (simp add: tx_lock0_def tx_lock7_def eval_defs)
  ultimately show ?thesis by blast
qed

text \<open>
  Claim C6 says that decoding again the bytes a decoded transaction occupies gives the same
  structured transaction. On the same buffer the first decode has locktime 7, and the
  decode of the 60 bytes re-sliced from the buffer has locktime 0.
\<close>

theorem redecode_differs:
  "\<exists>d d'. decode_tx_at (tx_lock0 @ tx_lock7) 0 = (60, Some d) \<and>
           decode_tx_at (py_slice (tx_lock0 @ tx_lock7) 0 (0 + 60)) 0 = (60, Some d') \<and>
           locktime (parsed d) = 7 \<and> locktime (parsed d') = 0 \<and> parsed d \<noteq> parsed d'"
proof -
  from two_txs_first_attempt obtain d where
    d: "decode_tx_at (tx_lock0 @ tx_lock7) 0 = (60, Some d)" "locktime (parsed d) = 7"
    using decode_tx_at_first by blast
  from resliced_attempt obtain d' where
    d': "decode_tx_at (py_slice (tx_lock0 @ tx_lock7) 0 (0 + 60)) 0 = (60, Some d')"
      "locktime (parsed d') = 0"
    using decode_tx_at_first by blast
  from d(2) d'(2) have "parsed d \<noteq> parsed d'" by auto
  with d d' show ?thesis by blast
qed

end
